theory Spec2Isabelle
  imports Main "HOL-Library.Word" "HOL-Library.Stream"
begin

unbundle bit_operations_syntax

section \<open>The connection-state poll loop of \<^verbatim>\<open>connstate/epoll_wait_cgo.c\<close>\<close>

text \<open>
  The file holds one function, \<^verbatim>\<open>cgo_epoll_wait_loop\<close>: an endless loop around
  \<^verbatim>\<open>epoll_wait\<close> that marks a connection as closed by its peer and, after every
  batch of events, stores 1 into an acknowledgement flag. The embedding follows the C text
  statement by statement. Shared memory is an explicit store, every atomic operation of the
  loop is written to a trace in program order, an access through a pointer to no live
  object is the value \<open>None\<close>, and the kernel behind \<^verbatim>\<open>epoll_wait\<close> is an infinite
  stream of what the successive calls find. Only the thread of the loop is modelled. Each
  atomic operation is a function of the memory it meets, whatever that memory is, so what
  is proved of one operation or one event holds after any writes of other threads before it.
\<close>

subsection \<open>Constants\<close>

text \<open>\<^verbatim>\<open>#define MAX_EVENTS 1024\<close> and the three state values (lines 25 to 29).\<close>

definition MAX_EVENTS :: nat where
  "MAX_EVENTS = 1024"

definition STATE_OK :: "64 word" where
  "STATE_OK = 0"

definition STATE_REMOTE_CLOSED :: "64 word" where
  "STATE_REMOTE_CLOSED = 1"

definition STATE_CLOSED :: "64 word" where
  "STATE_CLOSED = 2"

text \<open>
  The event bits and \<^verbatim>\<open>EINTR\<close> come from the system headers
  \<^verbatim>\<open><sys/epoll.h>\<close> and \<^verbatim>\<open><errno.h>\<close>; the values are those of Linux, the only
  target of the file (\<^verbatim>\<open>//go:build linux\<close>).
\<close>

definition EPOLLIN :: "32 word" where
  "EPOLLIN = 0x001"

definition EPOLLERR :: "32 word" where
  "EPOLLERR = 0x008"

definition EPOLLHUP :: "32 word" where
  "EPOLLHUP = 0x010"

definition EPOLLRDHUP :: "32 word" where
  "EPOLLRDHUP = 0x2000"

definition EINTR :: int where
  "EINTR = 4"

subsection \<open>Data\<close>

text \<open>Addresses are pointer-sized words; \<^verbatim>\<open>NULL\<close> is the address 0.\<close>

type_synonym addr = "64 word"

definition NULL :: addr where
  "NULL = 0"

text \<open>\<^verbatim>\<open>typedef struct { void* fd; atomic_uint_least64_t state; } conn_stater_t;\<close>\<close>

record conn_stater_t =
  fd :: addr
  state :: "64 word"

text \<open>
  \<^verbatim>\<open>struct epoll_event\<close>: the bit mask \<^verbatim>\<open>events\<close> and the user data, of which the
  loop reads the member \<^verbatim>\<open>data.ptr\<close> only.
\<close>

record epoll_event =
  events :: "32 word"
  data_ptr :: addr

text \<open>
  The objects the loop touches, and its atomic accesses to them. The trace records every
  access in program order, with the values of a store or a compare-and-swap as numbers.
\<close>

datatype obj = Slot addr | Conn_state addr | Freeack

datatype access = Load obj | Store obj nat | Cmpxchg obj nat nat

text \<open>
  Shared memory: the pointer slots (\<^verbatim>\<open>atomic_uintptr_t\<close>) and the connection cells by
  address, the flag \<^verbatim>\<open>*freeack_ptr\<close>, and the trace of the accesses made so far. An
  address outside the domain of a map holds no live object of that kind.
\<close>

record world =
  slots :: "addr \<rightharpoonup> addr"
  conns :: "addr \<rightharpoonup> conn_stater_t"
  freeack :: "32 word"
  trace :: "access list"

subsection \<open>The wait primitive\<close>

text \<open>
  \<^verbatim>\<open>epoll_wait\<close> is the system call, not code of this file. Its model follows the manual
  page: with timeout -1 a call returns when descriptors are ready, giving at most
  \<^verbatim>\<open>maxevents\<close> of them and leaving the others for later calls, or it fails with -1 and
  \<^verbatim>\<open>errno\<close> set. The kernel is the stream of what the successive calls find: a list of
  ready events or a failure with its \<^verbatim>\<open>errno\<close>. The result \<open>Wait_error e\<close> stands for
  \<^verbatim>\<open>n < 0\<close> with \<^verbatim>\<open>errno == e\<close>, and \<open>Wait_events evs\<close> for \<^verbatim>\<open>n == length evs\<close> with
  \<^verbatim>\<open>events[0..n)\<close> holding \<open>evs\<close>.
\<close>

datatype kevent = Ready "epoll_event list" | Failed int

type_synonym kernel = "kevent stream"

datatype wait_result = Wait_error int | Wait_events "epoll_event list"

definition epoll_wait :: "kernel \<Rightarrow> nat \<Rightarrow> wait_result \<times> kernel" where
  "epoll_wait k maxevents =
     (case shd k of
        Failed e \<Rightarrow> (Wait_error e, stl k)
      | Ready evs \<Rightarrow>
          (Wait_events (take maxevents evs),
           if length evs \<le> maxevents then stl k else Ready (drop maxevents evs) ## stl k))"

subsection \<open>The atomic operations\<close>

text \<open>\<^verbatim>\<open>atomic_load(conn_ptr_field)\<close> on a pointer slot (line 54).\<close>

definition atomic_load :: "addr \<Rightarrow> world \<Rightarrow> (addr \<times> world) option" where
  "atomic_load p w =
     (case slots w p of
        None \<Rightarrow> None
      | Some v \<Rightarrow> Some (v, w\<lparr>trace := trace w @ [Load (Slot p)]\<rparr>))"

text \<open>
  \<^verbatim>\<open>atomic_compare_exchange_strong(&conn->state, &expected, desired)\<close> on the state of
  the cell at address \<open>conn\<close> (line 60). The loop ignores the result and the value written
  back to the temporary \<^verbatim>\<open>expected\<close>, so the model returns the memory only.
\<close>

definition atomic_compare_exchange_strong ::
    "addr \<Rightarrow> 64 word \<Rightarrow> 64 word \<Rightarrow> world \<Rightarrow> world option" where
  "atomic_compare_exchange_strong conn expected desired w =
     (case conns w conn of
        None \<Rightarrow> None
      | Some c \<Rightarrow>
          Some (w\<lparr>conns := (if state c = expected
                             then (conns w)(conn \<mapsto> c\<lparr>state := desired\<rparr>)
                             else conns w),
                  trace := trace w @ [Cmpxchg (Conn_state conn) (unat expected) (unat desired)]\<rparr>))"

text \<open>\<^verbatim>\<open>atomic_store(freeack_ptr, v)\<close> (line 65).\<close>

definition atomic_store :: "32 word \<Rightarrow> world \<Rightarrow> world" where
  "atomic_store v w = w\<lparr>freeack := v, trace := trace w @ [Store Freeack (unat v)]\<rparr>"

subsection \<open>The loop\<close>

text \<open>The test of line 59: \<^verbatim>\<open>ev->events & (EPOLLHUP | EPOLLRDHUP | EPOLLERR)\<close>.\<close>

definition hup_mask :: "epoll_event \<Rightarrow> bool" where
  "hup_mask ev \<longleftrightarrow> events ev AND (EPOLLHUP OR EPOLLRDHUP OR EPOLLERR) \<noteq> 0"

text \<open>The body of the \<^verbatim>\<open>for\<close> loop, lines 50 to 61, for one event.\<close>

definition handle_event :: "epoll_event \<Rightarrow> world \<Rightarrow> world option" where
  "handle_event ev w =
     (let conn_ptr_field = data_ptr ev in
      case atomic_load conn_ptr_field w of
        None \<Rightarrow> None
      | Some (conn_ptr, w1) \<Rightarrow>
          if conn_ptr = NULL then Some w1
          else if hup_mask ev
               then atomic_compare_exchange_strong conn_ptr STATE_OK STATE_REMOTE_CLOSED w1
               else Some w1)"

text \<open>The \<^verbatim>\<open>for\<close> loop of line 49 over the \<open>n\<close> delivered events, in index order.\<close>

fun for_events :: "epoll_event list \<Rightarrow> world \<Rightarrow> world option" where
  "for_events [] w = Some w"
| "for_events (ev # rest) w =
     (case handle_event ev w of
        None \<Rightarrow> None
      | Some w' \<Rightarrow> for_events rest w')"

text \<open>
  What the call has done after a number of passes through \<^verbatim>\<open>while (1)\<close>: it is back at
  the top of the loop with the kernel and the memory as they are then, it has returned a
  value, or it has gone through a pointer to no live object.
\<close>

datatype outcome = Running kernel world | Returned int world | Fault

text \<open>One pass through the body of \<^verbatim>\<open>while (1)\<close>, lines 43 to 65.\<close>

definition loop_body :: "kernel \<Rightarrow> world \<Rightarrow> outcome" where
  "loop_body k w =
     (case epoll_wait k MAX_EVENTS of
        (Wait_error e, k') \<Rightarrow> if e = EINTR then Running k' w else Returned e w
      | (Wait_events evs, k') \<Rightarrow>
          (case for_events evs w of
             None \<Rightarrow> Fault
           | Some w' \<Rightarrow> Running k' (atomic_store 1 w')))"

text \<open>
  \<^verbatim>\<open>int cgo_epoll_wait_loop(int epfd, atomic_int_least32_t* freeack_ptr)\<close>. The polling
  set \<^verbatim>\<open>epfd\<close> is the kernel stream, \<^verbatim>\<open>*freeack_ptr\<close> the flag of the memory. The loop
  has no exit of its own, so the model counts passes: the first argument is the number of
  passes to run, and \<open>Running\<close> is the answer when they are used up and the call has not
  returned.
\<close>

fun cgo_epoll_wait_loop :: "nat \<Rightarrow> kernel \<Rightarrow> world \<Rightarrow> outcome" where
  "cgo_epoll_wait_loop 0 k w = Running k w"
| "cgo_epoll_wait_loop (Suc fuel) k w =
     (case loop_body k w of
        Running k' w' \<Rightarrow> cgo_epoll_wait_loop fuel k' w'
      | Returned e w' \<Rightarrow> Returned e w'
      | Fault \<Rightarrow> Fault)"

subsection \<open>Vocabulary of the properties\<close>

text \<open>The object an access goes to.\<close>

fun obj_of :: "access \<Rightarrow> obj" where
  "obj_of (Load x) = x"
| "obj_of (Store x v) = x"
| "obj_of (Cmpxchg x e d) = x"

text \<open>The accesses made on the way from the memory \<open>w\<close> to the later memory \<open>w'\<close>.\<close>

definition emitted :: "world \<Rightarrow> world \<Rightarrow> access list" where
  "emitted w w' = drop (length (trace w)) (trace w')"

text \<open>The memory an outcome leaves, when it leaves one.\<close>

fun outcome_world :: "outcome \<Rightarrow> world option" where
  "outcome_world (Running k w) = Some w"
| "outcome_world (Returned e w) = Some w"
| "outcome_world Fault = None"

fun has_returned :: "outcome \<Rightarrow> bool" where
  "has_returned (Returned e w) = True"
| "has_returned (Running k w) = False"
| "has_returned Fault = False"

text \<open>
  What may happen to the content of one cell address: nothing, or a cell in state
  \<^verbatim>\<open>STATE_OK\<close> gets the state \<^verbatim>\<open>STATE_REMOTE_CLOSED\<close>, its \<^verbatim>\<open>fd\<close> kept.
\<close>

definition cell_step :: "conn_stater_t option \<Rightarrow> conn_stater_t option \<Rightarrow> bool" where
  "cell_step c c' \<longleftrightarrow>
     c' = c \<or>
     (case c of
        None \<Rightarrow> False
      | Some x \<Rightarrow> state x = STATE_OK \<and> c' = Some (x\<lparr>state := STATE_REMOTE_CLOSED\<rparr>))"

text \<open>The three kinds of access the loop makes.\<close>

fun loop_access :: "access \<Rightarrow> bool" where
  "loop_access (Load (Slot s)) = True"
| "loop_access (Cmpxchg (Conn_state a) e d) =
     (e = unat STATE_OK \<and> d = unat STATE_REMOTE_CLOSED)"
| "loop_access (Store Freeack v) = (v = 1)"
| "loop_access x = False"

text \<open>
  An event finds the memory it needs: its user data is the address of a live slot, and
  when the loop will go on to the cell (slot not null, one of the three bits set) the slot
  holds the address of a live cell.
\<close>

definition valid_event :: "world \<Rightarrow> epoll_event \<Rightarrow> bool" where
  "valid_event w ev \<longleftrightarrow>
     (case slots w (data_ptr ev) of
        None \<Rightarrow> False
      | Some p \<Rightarrow> p = NULL \<or> \<not> hup_mask ev \<or> conns w p \<noteq> None)"

text \<open>
  Normal operation of the wait primitive: events delivered (none included) that find the
  memory they need, or an interruption by a signal.
\<close>

fun normal_kevent :: "world \<Rightarrow> kevent \<Rightarrow> bool" where
  "normal_kevent w (Ready evs) = list_all (valid_event w) evs"
| "normal_kevent w (Failed e) = (e = EINTR)"

text \<open>
  The accesses one event can cause: the load of its slot and the compare-and-swap from
  \<^verbatim>\<open>STATE_OK\<close> to \<^verbatim>\<open>STATE_REMOTE_CLOSED\<close>.
\<close>

fun event_access :: "access \<Rightarrow> bool" where
  "event_access (Load (Slot s)) = True"
| "event_access (Cmpxchg (Conn_state a) e d) =
     (e = unat STATE_OK \<and> d = unat STATE_REMOTE_CLOSED)"
| "event_access x = False"

text \<open>
  How the memory \<open>w'\<close> can differ from an earlier memory \<open>w\<close>: the slots are the
  same, every cell address has made a \<open>cell_step\<close>, and the trace has grown by accesses
  that satisfy \<open>P\<close>.
\<close>

definition evolves :: "(access \<Rightarrow> bool) \<Rightarrow> world \<Rightarrow> world \<Rightarrow> bool" where
  "evolves P w w' \<longleftrightarrow>
     slots w' = slots w \<and> (\<forall>a. cell_step (conns w a) (conns w' a)) \<and>
     (\<exists>t. trace w' = trace w @ t \<and> (\<forall>x\<in>set t. P x))"

text \<open>The load of a slot: each handled event makes exactly one.\<close>

fun is_slot_load :: "access \<Rightarrow> bool" where
  "is_slot_load (Load (Slot s)) = True"
| "is_slot_load x = False"

subsection \<open>A concrete memory\<close>

text \<open>
  Three registered descriptors with their slots at \<open>0x100\<close>, \<open>0x108\<close> and \<open>0x110\<close>,
  pointing to the cells A at \<open>0x1000\<close> (\<^verbatim>\<open>STATE_OK\<close>), B at \<open>0x2000\<close>
  (\<^verbatim>\<open>STATE_OK\<close>) and C at \<open>0x3000\<close> (\<^verbatim>\<open>STATE_CLOSED\<close>); the flag is 0 and
  nothing has been accessed yet.
\<close>

definition scenario :: world where
  "scenario =
     \<lparr>slots = [0x100 \<mapsto> 0x1000, 0x108 \<mapsto> 0x2000, 0x110 \<mapsto> 0x3000],
      conns = [0x1000 \<mapsto> \<lparr>fd = 3, state = STATE_OK\<rparr>,
               0x2000 \<mapsto> \<lparr>fd = 4, state = STATE_OK\<rparr>,
               0x3000 \<mapsto> \<lparr>fd = 5, state = STATE_CLOSED\<rparr>],
      freeack = 0,
      trace = []\<rparr>"

definition hangup :: "addr \<Rightarrow> epoll_event" where
  "hangup s = \<lparr>events = EPOLLHUP, data_ptr = s\<rparr>"

definition readable :: "addr \<Rightarrow> epoll_event" where
  "readable s = \<lparr>events = EPOLLIN, data_ptr = s\<rparr>"

section \<open>Basic facts\<close>


lemma handle_event_cases:
  "handle_event ev w =
     (case slots w (data_ptr ev) of
        None \<Rightarrow> None
      | Some p \<Rightarrow>
          if p \<noteq> NULL \<and> hup_mask ev
          then (case conns w p of
                  None \<Rightarrow> None
                | Some c \<Rightarrow>
                    Some (w\<lparr>conns := (if state c = STATE_OK
                                       then (conns w)(p \<mapsto> c\<lparr>state := STATE_REMOTE_CLOSED\<rparr>)
                                       else conns w),
                            trace := trace w @ [Load (Slot (data_ptr ev)),
                              Cmpxchg (Conn_state p) (unat STATE_OK) (unat STATE_REMOTE_CLOSED)]\<rparr>))
          else Some (w\<lparr>trace := trace w @ [Load (Slot (data_ptr ev))]\<rparr>))"
  by (simp add: handle_event_def Let_def atomic_load_def atomic_compare_exchange_strong_def
      split: option.splits)

lemma cell_step_refl: "cell_step c c"
  by (simp add: cell_step_def)

lemma cell_step_trans: "cell_step a b \<Longrightarrow> cell_step b c \<Longrightarrow> cell_step a c"
  by (auto simp: cell_step_def STATE_OK_def STATE_REMOTE_CLOSED_def split: option.splits)

lemma cell_step_None: "cell_step c c' \<Longrightarrow> c' = None \<longleftrightarrow> c = None"
  by (auto simp: cell_step_def split: option.splits)

lemma evolves_refl: "evolves P w w"
  by (simp add: evolves_def cell_step_refl)

lemma evolves_trans: "evolves P a b \<Longrightarrow> evolves P b c \<Longrightarrow> evolves P a c"
  unfolding evolves_def
  by (auto intro: cell_step_trans)

lemma evolves_mono: "evolves P w w' \<Longrightarrow> (\<And>x. P x \<Longrightarrow> Q x) \<Longrightarrow> evolves Q w w'"
  unfolding evolves_def by auto

lemma evolves_emitted:
  "evolves P w w' \<Longrightarrow> trace w' = trace w @ emitted w w' \<and> (\<forall>x\<in>set (emitted w w'). P x)"
  by (auto simp: evolves_def emitted_def)

lemma event_access_loop: "event_access x \<Longrightarrow> loop_access x"
  by (cases x rule: event_access.cases) simp_all

lemma event_access_obj: "event_access x \<Longrightarrow> obj_of x \<noteq> Freeack"
  by (cases x rule: event_access.cases) simp_all

lemma loop_access_cell:
  "loop_access x \<Longrightarrow> obj_of x = Conn_state a \<Longrightarrow>
     x = Cmpxchg (Conn_state a) (unat STATE_OK) (unat STATE_REMOTE_CLOSED)"
  by (cases x rule: loop_access.cases) simp_all

lemma loop_access_ack: "loop_access x \<Longrightarrow> obj_of x = Freeack \<Longrightarrow> x = Store Freeack 1"
  by (cases x rule: loop_access.cases) simp_all

lemma handle_event_evolves: "handle_event ev w = Some w' \<Longrightarrow> evolves event_access w w'"
  by (auto simp: handle_event_cases evolves_def cell_step_def split: option.splits if_splits)

lemma handle_event_freeack: "handle_event ev w = Some w' \<Longrightarrow> freeack w' = freeack w"
  by (auto simp: handle_event_cases split: option.splits if_splits)

lemma for_events_evolves: "for_events evs w = Some w' \<Longrightarrow> evolves event_access w w'"
proof (induction evs arbitrary: w)
  case Nil
  then show ?case by (simp add: evolves_refl)
next
  case (Cons ev evs)
  then obtain w1 where 1: "handle_event ev w = Some w1" and 2: "for_events evs w1 = Some w'"
    by (auto split: option.splits)
  from handle_event_evolves [OF 1] Cons.IH [OF 2] show ?case
    by (rule evolves_trans)
qed

lemma for_events_freeack: "for_events evs w = Some w' \<Longrightarrow> freeack w' = freeack w"
  by (induction evs arbitrary: w) (auto split: option.splits dest: handle_event_freeack)

lemma valid_event_iff: "valid_event w ev \<longleftrightarrow> handle_event ev w \<noteq> None"
  by (auto simp: valid_event_def handle_event_cases split: option.splits)

lemma evolves_conns_None: "evolves P w w' \<Longrightarrow> conns w' a = None \<longleftrightarrow> conns w a = None"
  unfolding evolves_def by (blast dest: cell_step_None)

lemma evolves_slots: "evolves P w w' \<Longrightarrow> slots w' = slots w"
  by (simp add: evolves_def)

lemma evolves_valid_event:
  assumes "evolves P w w'"
  shows "valid_event w' = valid_event w"
proof (rule ext)
  fix ev
  show "valid_event w' ev = valid_event w ev"
    using evolves_conns_None [OF assms] evolves_slots [OF assms]
    by (simp add: valid_event_def split: option.splits)
qed

lemma for_events_valid: "list_all (valid_event w) evs \<longleftrightarrow> for_events evs w \<noteq> None"
proof (induction evs arbitrary: w)
  case Nil
  show ?case by simp
next
  case (Cons ev evs)
  show ?case
  proof (cases "handle_event ev w")
    case None
    then show ?thesis by (simp add: valid_event_iff)
  next
    case (Some w1)
    have "valid_event w ev"
      using Some by (simp add: valid_event_iff)
    moreover have "valid_event w1 = valid_event w"
      using handle_event_evolves [OF Some] by (rule evolves_valid_event)
    ultimately show ?thesis
      using Some Cons.IH [of w1] by simp
  qed
qed

lemma atomic_store_evolves: "evolves loop_access w (atomic_store 1 w)"
  by (simp add: evolves_def atomic_store_def cell_step_refl)

lemma loop_body_Failed:
  "shd k = Failed e \<Longrightarrow>
     loop_body k w = (if e = EINTR then Running (stl k) w else Returned e w)"
  by (simp add: loop_body_def epoll_wait_def)

lemma loop_body_Ready:
  "shd k = Ready evs \<Longrightarrow>
     loop_body k w =
       (case for_events (take MAX_EVENTS evs) w of
          None \<Rightarrow> Fault
        | Some w' \<Rightarrow>
            Running (if length evs \<le> MAX_EVENTS then stl k
                     else Ready (drop MAX_EVENTS evs) ## stl k)
              (atomic_store 1 w'))"
  by (simp add: loop_body_def epoll_wait_def)

lemma loop_body_evolves:
  "outcome_world (loop_body k w) = Some w' \<Longrightarrow> evolves loop_access w w'"
proof (cases "shd k")
  case (Failed e)
  assume "outcome_world (loop_body k w) = Some w'"
  with Failed show ?thesis
    by (auto simp: loop_body_Failed evolves_refl split: if_splits)
next
  case (Ready evs)
  assume a: "outcome_world (loop_body k w) = Some w'"
  with Ready obtain w1 where 1: "for_events (take MAX_EVENTS evs) w = Some w1"
    and 2: "w' = atomic_store 1 w1"
    by (auto simp: loop_body_Ready split: option.splits)
  have "evolves loop_access w w1"
    using for_events_evolves [OF 1] event_access_loop by (rule evolves_mono)
  then show ?thesis
    unfolding 2 using atomic_store_evolves by (rule evolves_trans)
qed

lemma loop_body_failures:
  "loop_body k w = Running k' w' \<Longrightarrow> Failed e \<in> sset k' \<Longrightarrow> Failed e \<in> sset k"
  by (cases k; cases "shd k")
     (auto simp: loop_body_Failed loop_body_Ready split: if_splits option.splits)

lemma loop_body_Returned:
  "loop_body k w = Returned e w' \<Longrightarrow> shd k = Failed e \<and> e \<noteq> EINTR \<and> w' = w"
  by (cases "shd k") (auto simp: loop_body_Failed loop_body_Ready split: if_splits option.splits)

lemma loop_evolves:
  "outcome_world (cgo_epoll_wait_loop fuel k w) = Some w' \<Longrightarrow> evolves loop_access w w'"
proof (induction fuel arbitrary: k w)
  case 0
  then show ?case by (simp add: evolves_refl)
next
  case (Suc fuel)
  show ?case
  proof (cases "loop_body k w")
    case (Running k1 w1)
    with Suc.prems have "outcome_world (cgo_epoll_wait_loop fuel k1 w1) = Some w'" by simp
    then have "evolves loop_access w1 w'" by (rule Suc.IH)
    moreover have "evolves loop_access w w1"
      using Running by (intro loop_body_evolves [of k]) simp
    ultimately show ?thesis by (rule evolves_trans [rotated])
  next
    case (Returned e w1)
    with Suc.prems show ?thesis
      by (intro loop_body_evolves [of k]) simp
  next
    case Fault
    with Suc.prems show ?thesis by simp
  qed
qed

lemma loop_Returned:
  "cgo_epoll_wait_loop fuel k w = Returned e w' \<Longrightarrow> Failed e \<in> sset k \<and> e \<noteq> EINTR"
proof (induction fuel arbitrary: k w)
  case 0
  then show ?case by simp
next
  case (Suc fuel)
  show ?case
  proof (cases "loop_body k w")
    case (Running k1 w1)
    with Suc.prems have "cgo_epoll_wait_loop fuel k1 w1 = Returned e w'" by simp
    then have "Failed e \<in> sset k1 \<and> e \<noteq> EINTR" by (rule Suc.IH)
    with Running show ?thesis by (auto dest: loop_body_failures)
  next
    case (Returned e1 w1)
    with Suc.prems have "loop_body k w = Returned e w'" by simp
    from loop_body_Returned [OF this] show ?thesis
      by (metis shd_sset)
  next
    case Fault
    with Suc.prems show ?thesis by simp
  qed
qed


lemma cell_step_not_OK: "cell_step (Some c) c' \<Longrightarrow> state c \<noteq> STATE_OK \<Longrightarrow> c' = Some c"
  by (simp add: cell_step_def)

lemma cell_step_CLOSED:
  "cell_step c (Some c') \<Longrightarrow> state c' = STATE_CLOSED \<Longrightarrow> c = Some c'"
  by (auto simp: cell_step_def STATE_CLOSED_def STATE_REMOTE_CLOSED_def split: option.splits)

lemma evolves_cell_step: "evolves P w w' \<Longrightarrow> cell_step (conns w a) (conns w' a)"
  by (simp add: evolves_def)


section \<open>Interrupted waits\<close>

lemma loop_body_EINTR: "loop_body (Failed EINTR ## k) w = Running k w"
  by (simp add: loop_body_def epoll_wait_def)

text \<open>
  C5. A wait interrupted by a signal (\<^verbatim>\<open>errno == EINTR\<close>) is retried with no effect.
  After any number \<open>n\<close> of interruptions in a row the loop is still running, on the kernel
  that follows them and on the very memory it started from: no cell state, no slot, no
  acknowledgement flag and no trace entry differs, and nothing is returned. The passes that
  follow behave as if the interruptions had not happened.
\<close>

theorem interrupted_wait_retried:
  "cgo_epoll_wait_loop n (replicate n (Failed EINTR) @- k) w = Running k w
   \<and> cgo_epoll_wait_loop (n + fuel) (replicate n (Failed EINTR) @- k) w
       = cgo_epoll_wait_loop fuel k w"
proof (induction n)
  case 0
  show ?case by simp
next
  case (Suc n)
  then show ?case by (simp add: loop_body_EINTR)
qed

section \<open>The state transition\<close>

text \<open>
  C1. The loop changes a cell in one way only: from \<^verbatim>\<open>STATE_OK\<close> to
  \<^verbatim>\<open>STATE_REMOTE_CLOSED\<close>, by a compare-and-swap that expects \<^verbatim>\<open>STATE_OK\<close>. This
  holds for the handling of one event, from the memory \<open>w\<close> it finds to the memory
  \<open>w1\<close> it leaves, and for any number of passes of the loop on any kernel: every cell
  address has made a \<open>cell_step\<close>; a cell that was not in \<^verbatim>\<open>STATE_OK\<close> (so
  \<^verbatim>\<open>STATE_REMOTE_CLOSED\<close> or \<^verbatim>\<open>STATE_CLOSED\<close>) is unchanged; a cell found in
  \<^verbatim>\<open>STATE_CLOSED\<close> afterwards was so before, the loop never writes that value; and
  every access the loop has made to a cell state is a compare-and-swap from
  \<^verbatim>\<open>STATE_OK\<close> to \<^verbatim>\<open>STATE_REMOTE_CLOSED\<close>.
\<close>

theorem only_ok_to_remote_closed:
  "(handle_event ev w = Some w1 \<longrightarrow>
      (\<forall>a. cell_step (conns w a) (conns w1 a)) \<and>
      (\<forall>a c. conns w a = Some c \<and> state c \<noteq> STATE_OK \<longrightarrow> conns w1 a = Some c))
   \<and> (outcome_world (cgo_epoll_wait_loop fuel k w) = Some w' \<longrightarrow>
      (\<forall>a. cell_step (conns w a) (conns w' a)) \<and>
      (\<forall>a c. conns w a = Some c \<and> state c \<noteq> STATE_OK \<longrightarrow> conns w' a = Some c) \<and>
      (\<forall>a c'. conns w' a = Some c' \<and> state c' = STATE_CLOSED \<longrightarrow> conns w a = Some c') \<and>
      (\<forall>x\<in>set (emitted w w'). \<forall>a. obj_of x = Conn_state a \<longrightarrow>
         x = Cmpxchg (Conn_state a) (unat STATE_OK) (unat STATE_REMOTE_CLOSED)))"
proof (intro conjI impI allI)
  fix a
  assume "handle_event ev w = Some w1"
  then have "evolves event_access w w1" by (rule handle_event_evolves)
  then show "cell_step (conns w a) (conns w1 a)" by (rule evolves_cell_step)
next
  fix a c
  assume "handle_event ev w = Some w1"
  then have "evolves event_access w w1" by (rule handle_event_evolves)
  then have "cell_step (conns w a) (conns w1 a)" by (rule evolves_cell_step)
  moreover assume "conns w a = Some c \<and> state c \<noteq> STATE_OK"
  ultimately show "conns w1 a = Some c" by (simp add: cell_step_not_OK)
next
  fix a
  assume "outcome_world (cgo_epoll_wait_loop fuel k w) = Some w'"
  then have "evolves loop_access w w'" by (rule loop_evolves)
  then show "cell_step (conns w a) (conns w' a)" by (rule evolves_cell_step)
next
  fix a c
  assume "outcome_world (cgo_epoll_wait_loop fuel k w) = Some w'"
  then have "evolves loop_access w w'" by (rule loop_evolves)
  then have "cell_step (conns w a) (conns w' a)" by (rule evolves_cell_step)
  moreover assume "conns w a = Some c \<and> state c \<noteq> STATE_OK"
  ultimately show "conns w' a = Some c" by (simp add: cell_step_not_OK)
next
  fix a c'
  assume "outcome_world (cgo_epoll_wait_loop fuel k w) = Some w'"
  then have "evolves loop_access w w'" by (rule loop_evolves)
  then have "cell_step (conns w a) (conns w' a)" by (rule evolves_cell_step)
  moreover assume "conns w' a = Some c' \<and> state c' = STATE_CLOSED"
  ultimately show "conns w a = Some c'" by (simp add: cell_step_CLOSED)
next
  assume "outcome_world (cgo_epoll_wait_loop fuel k w) = Some w'"
  then have "evolves loop_access w w'" by (rule loop_evolves)
  from evolves_emitted [OF this]
  show "\<forall>x\<in>set (emitted w w'). \<forall>a. obj_of x = Conn_state a \<longrightarrow>
         x = Cmpxchg (Conn_state a) (unat STATE_OK) (unat STATE_REMOTE_CLOSED)"
    by (blast dest: loop_access_cell)
qed

theorem only_ok_to_remote_closed_witness:
  "\<exists>w1 w'. handle_event (hangup 0x110) scenario = Some w1
     \<and> outcome_world (cgo_epoll_wait_loop (Suc (Suc 0))
          (Ready [hangup 0x100, hangup 0x110] ## Ready [hangup 0x100] ## sconst (Failed 9))
          scenario) = Some w'
     \<and> conns w1 0x3000 = Some \<lparr>fd = 5, state = STATE_CLOSED\<rparr>
     \<and> conns w' 0x3000 = Some \<lparr>fd = 5, state = STATE_CLOSED\<rparr>
     \<and> cell_step (Some \<lparr>fd = 3, state = STATE_OK\<rparr>) (conns w' 0x1000)
     \<and> emitted scenario w' =
          [Load (Slot 0x100), Cmpxchg (Conn_state 0x1000) 0 1,
           Load (Slot 0x110), Cmpxchg (Conn_state 0x3000) 0 1, Store Freeack 1,
           Load (Slot 0x100), Cmpxchg (Conn_state 0x1000) 0 1, Store Freeack 1]"
proof -
  let ?k = "Ready [hangup 0x100, hangup 0x110] ## Ready [hangup 0x100] ## sconst (Failed 9)"
  let ?C = "\<lparr>fd = 5, state = STATE_CLOSED\<rparr>"
  let ?A = "\<lparr>fd = 3, state = STATE_OK\<rparr>"
  let ?w1 = "scenario\<lparr>trace := [Load (Slot 0x110), Cmpxchg (Conn_state 0x3000) 0 1]\<rparr>"
  let ?t = "[Load (Slot 0x100), Cmpxchg (Conn_state 0x1000) 0 1,
             Load (Slot 0x110), Cmpxchg (Conn_state 0x3000) 0 1, Store Freeack 1,
             Load (Slot 0x100), Cmpxchg (Conn_state 0x1000) 0 1, Store Freeack 1]"
  let ?w' = "scenario\<lparr>conns := (conns scenario)(0x1000 \<mapsto> \<lparr>fd = 3, state = STATE_REMOTE_CLOSED\<rparr>),
       freeack := 1, trace := ?t\<rparr>"
  have ev: "handle_event (hangup 0x110) scenario = Some ?w1"
    by (simp add: handle_event_cases hup_mask_def EPOLLHUP_def EPOLLRDHUP_def EPOLLERR_def
        scenario_def NULL_def STATE_OK_def STATE_REMOTE_CLOSED_def STATE_CLOSED_def hangup_def)
  have run: "cgo_epoll_wait_loop (Suc (Suc 0)) ?k scenario = Running (sconst (Failed 9)) ?w'"
    by (simp add: loop_body_Ready MAX_EVENTS_def handle_event_cases hup_mask_def
        EPOLLHUP_def EPOLLRDHUP_def EPOLLERR_def scenario_def NULL_def atomic_store_def
        STATE_OK_def STATE_REMOTE_CLOSED_def STATE_CLOSED_def hangup_def)
  then have out: "outcome_world (cgo_epoll_wait_loop (Suc (Suc 0)) ?k scenario) = Some ?w'"
    by simp
  have cA: "conns scenario 0x1000 = Some ?A" and cC: "conns scenario 0x3000 = Some ?C"
    by (simp_all add: scenario_def)
  have ne: "state ?C \<noteq> STATE_OK"
    by (simp add: STATE_CLOSED_def STATE_OK_def)
  note T = only_ok_to_remote_closed [of "hangup 0x110" scenario ?w1 "Suc (Suc 0)" ?k ?w']
  from T ev cC ne have 1: "conns ?w1 0x3000 = Some ?C" by blast
  from T out cC ne have 2: "conns ?w' 0x3000 = Some ?C" by blast
  from T out have "cell_step (conns scenario 0x1000) (conns ?w' 0x1000)" by blast
  then have 3: "cell_step (Some ?A) (conns ?w' 0x1000)" by (simp only: cA)
  have 4: "emitted scenario ?w' = ?t"
    by (simp add: emitted_def scenario_def)
  from ev out 1 2 3 4 show ?thesis by blast
qed

section \<open>The scenario of three cells\<close>

text \<open>
  C8. On the memory \<open>scenario\<close> (A and B in \<^verbatim>\<open>STATE_OK\<close>, C in
  \<^verbatim>\<open>STATE_CLOSED\<close>), a batch with a hang-up for A, a hang-up for B and a
  readability-only event for C leaves A and B in \<^verbatim>\<open>STATE_REMOTE_CLOSED\<close>, C in
  \<^verbatim>\<open>STATE_CLOSED\<close>, and the acknowledgement flag at 1; the store to the flag is the
  last access of the pass.
\<close>

theorem scenario_run:
  "conns scenario 0x1000 = Some \<lparr>fd = 3, state = STATE_OK\<rparr>
   \<and> conns scenario 0x2000 = Some \<lparr>fd = 4, state = STATE_OK\<rparr>
   \<and> conns scenario 0x3000 = Some \<lparr>fd = 5, state = STATE_CLOSED\<rparr>
   \<and> (\<exists>w'. cgo_epoll_wait_loop (Suc 0)
          (Ready [hangup 0x100, hangup 0x108, readable 0x110] ## k) scenario = Running k w'
     \<and> conns w' 0x1000 = Some \<lparr>fd = 3, state = STATE_REMOTE_CLOSED\<rparr>
     \<and> conns w' 0x2000 = Some \<lparr>fd = 4, state = STATE_REMOTE_CLOSED\<rparr>
     \<and> conns w' 0x3000 = Some \<lparr>fd = 5, state = STATE_CLOSED\<rparr>
     \<and> freeack w' = 1
     \<and> trace w' = [Load (Slot 0x100), Cmpxchg (Conn_state 0x1000) 0 1,
                    Load (Slot 0x108), Cmpxchg (Conn_state 0x2000) 0 1,
                    Load (Slot 0x110), Store Freeack 1])"
  by (simp add: loop_body_Ready MAX_EVENTS_def handle_event_cases hup_mask_def
      EPOLLIN_def EPOLLHUP_def EPOLLRDHUP_def EPOLLERR_def
      scenario_def NULL_def atomic_store_def STATE_OK_def
      STATE_REMOTE_CLOSED_def STATE_CLOSED_def hangup_def readable_def)

section \<open>Null slots\<close>

lemma hup_mask_iff:
  "hup_mask ev \<longleftrightarrow>
     events ev AND EPOLLHUP \<noteq> 0 \<or> events ev AND EPOLLRDHUP \<noteq> 0 \<or> events ev AND EPOLLERR \<noteq> 0"
  by (simp add: hup_mask_def bit.conj_disj_distrib or_eq_0_iff)

lemma handle_event_null:
  "slots w (data_ptr ev) = Some NULL \<Longrightarrow>
     handle_event ev w = Some (w\<lparr>trace := trace w @ [Load (Slot (data_ptr ev))]\<rparr>)"
  by (simp add: handle_event_cases)

text \<open>
  C3. An event whose slot loads as null is skipped, whatever its event bits. Its handling
  does not fault and leaves the memory \<open>w1\<close>, which is \<open>w\<close> with one more trace entry,
  the load of the slot: the cells, the slots and the flag are those of \<open>w\<close>, and no cell
  state was read or written. The \<^verbatim>\<open>for\<close> loop goes on with the remaining events
  of the batch from \<open>w1\<close>.
\<close>

theorem null_slot_skipped:
  "slots w (data_ptr ev) = Some NULL \<Longrightarrow>
     (let w1 = w\<lparr>trace := trace w @ [Load (Slot (data_ptr ev))]\<rparr>
      in handle_event ev w = Some w1
         \<and> for_events (ev # rest) w = for_events rest w1
         \<and> conns w1 = conns w \<and> slots w1 = slots w \<and> freeack w1 = freeack w
         \<and> emitted w w1 = [Load (Slot (data_ptr ev))])"
  by (simp add: Let_def handle_event_null emitted_def)

theorem null_slot_skipped_witness:
  "handle_event (hangup 0x118) (scenario\<lparr>slots := (slots scenario)(0x118 \<mapsto> NULL)\<rparr>)
     = Some (scenario\<lparr>slots := (slots scenario)(0x118 \<mapsto> NULL), trace := [Load (Slot 0x118)]\<rparr>)
   \<and> for_events [hangup 0x118, hangup 0x100] (scenario\<lparr>slots := (slots scenario)(0x118 \<mapsto> NULL)\<rparr>)
     = Some (scenario\<lparr>slots := (slots scenario)(0x118 \<mapsto> NULL),
          conns := (conns scenario)(0x1000 \<mapsto> \<lparr>fd = 3, state = STATE_REMOTE_CLOSED\<rparr>),
          trace := [Load (Slot 0x118), Load (Slot 0x100), Cmpxchg (Conn_state 0x1000) 0 1]\<rparr>)"
proof -
  let ?w = "scenario\<lparr>slots := (slots scenario)(0x118 \<mapsto> NULL)\<rparr>"
  have s: "slots ?w (data_ptr (hangup 0x118)) = Some NULL"
    by (simp add: hangup_def)
  have t: "trace ?w = []" "data_ptr (hangup 0x118) = 0x118"
    by (simp_all add: scenario_def hangup_def)
  have r: "for_events [hangup 0x100] (?w\<lparr>trace := [Load (Slot 0x118)]\<rparr>)
     = Some (scenario\<lparr>slots := (slots scenario)(0x118 \<mapsto> NULL),
          conns := (conns scenario)(0x1000 \<mapsto> \<lparr>fd = 3, state = STATE_REMOTE_CLOSED\<rparr>),
          trace := [Load (Slot 0x118), Load (Slot 0x100), Cmpxchg (Conn_state 0x1000) 0 1]\<rparr>)"
    by (simp add: handle_event_cases hup_mask_def EPOLLHUP_def EPOLLRDHUP_def EPOLLERR_def
        scenario_def NULL_def STATE_OK_def STATE_REMOTE_CLOSED_def hangup_def)
  from null_slot_skipped [OF s, of "[hangup 0x100]"] r show ?thesis
    by (simp add: Let_def t)
qed

section \<open>Which events mark a cell\<close>

lemma handle_event_hup:
  "slots w (data_ptr ev) = Some p \<Longrightarrow> p \<noteq> NULL \<Longrightarrow> hup_mask ev \<Longrightarrow>
     handle_event ev w =
       (case conns w p of
          None \<Rightarrow> None
        | Some c \<Rightarrow>
            Some (w\<lparr>conns := (if state c = STATE_OK
                               then (conns w)(p \<mapsto> c\<lparr>state := STATE_REMOTE_CLOSED\<rparr>)
                               else conns w),
                    trace := trace w @ [Load (Slot (data_ptr ev)),
                      Cmpxchg (Conn_state p) (unat STATE_OK) (unat STATE_REMOTE_CLOSED)]\<rparr>))"
  by (simp add: handle_event_cases)

lemma handle_event_no_hup:
  "slots w (data_ptr ev) = Some p \<Longrightarrow> \<not> hup_mask ev \<Longrightarrow>
     handle_event ev w = Some (w\<lparr>trace := trace w @ [Load (Slot (data_ptr ev))]\<rparr>)"
  by (simp add: handle_event_cases)

text \<open>
  C6. For an event whose slot holds a non-null pointer \<open>p\<close>: the test of the loop is true
  exactly when one of the bits \<^verbatim>\<open>EPOLLHUP\<close>, \<^verbatim>\<open>EPOLLRDHUP\<close>, \<^verbatim>\<open>EPOLLERR\<close> is set.
  When it is true, the event's accesses are the load of its slot and one compare-and-swap
  from \<^verbatim>\<open>STATE_OK\<close> to \<^verbatim>\<open>STATE_REMOTE_CLOSED\<close> on the cell at \<open>p\<close>, which changes
  the cell when it is in \<^verbatim>\<open>STATE_OK\<close>. When it is false, the load of the slot is the
  only access and the memory is otherwise the same. Two events with the same user data
  that both pass the test have the same result, whichever of the three bits each carries.
\<close>

theorem cas_iff_hup_rdhup_err:
  "slots w (data_ptr ev) = Some p \<Longrightarrow> p \<noteq> NULL \<Longrightarrow>
     (hup_mask ev \<longleftrightarrow>
        events ev AND EPOLLHUP \<noteq> 0 \<or> events ev AND EPOLLRDHUP \<noteq> 0
        \<or> events ev AND EPOLLERR \<noteq> 0)
     \<and> (hup_mask ev \<longrightarrow>
          handle_event ev w =
            (case conns w p of
               None \<Rightarrow> None
             | Some c \<Rightarrow>
                 Some (w\<lparr>conns := (if state c = STATE_OK
                                    then (conns w)(p \<mapsto> c\<lparr>state := STATE_REMOTE_CLOSED\<rparr>)
                                    else conns w),
                         trace := trace w @ [Load (Slot (data_ptr ev)),
                           Cmpxchg (Conn_state p) (unat STATE_OK)
                             (unat STATE_REMOTE_CLOSED)]\<rparr>)))
     \<and> (\<not> hup_mask ev \<longrightarrow>
          handle_event ev w = Some (w\<lparr>trace := trace w @ [Load (Slot (data_ptr ev))]\<rparr>))
     \<and> (\<forall>ev'. data_ptr ev' = data_ptr ev \<and> hup_mask ev \<and> hup_mask ev' \<longrightarrow>
          handle_event ev' w = handle_event ev w)"
proof (intro conjI impI allI)
  show "hup_mask ev \<longleftrightarrow>
        events ev AND EPOLLHUP \<noteq> 0 \<or> events ev AND EPOLLRDHUP \<noteq> 0
        \<or> events ev AND EPOLLERR \<noteq> 0"
    by (rule hup_mask_iff)
next
  assume "slots w (data_ptr ev) = Some p" "p \<noteq> NULL" "hup_mask ev"
  then show "handle_event ev w =
            (case conns w p of
               None \<Rightarrow> None
             | Some c \<Rightarrow>
                 Some (w\<lparr>conns := (if state c = STATE_OK
                                    then (conns w)(p \<mapsto> c\<lparr>state := STATE_REMOTE_CLOSED\<rparr>)
                                    else conns w),
                         trace := trace w @ [Load (Slot (data_ptr ev)),
                           Cmpxchg (Conn_state p) (unat STATE_OK)
                             (unat STATE_REMOTE_CLOSED)]\<rparr>))"
    by (rule handle_event_hup)
next
  assume "slots w (data_ptr ev) = Some p" "\<not> hup_mask ev"
  then show "handle_event ev w = Some (w\<lparr>trace := trace w @ [Load (Slot (data_ptr ev))]\<rparr>)"
    by (rule handle_event_no_hup)
next
  fix ev'
  assume s: "slots w (data_ptr ev) = Some p" and n: "p \<noteq> NULL"
    and "data_ptr ev' = data_ptr ev \<and> hup_mask ev \<and> hup_mask ev'"
  then have d: "data_ptr ev' = data_ptr ev" and h: "hup_mask ev" and h': "hup_mask ev'"
    by simp_all
  from s d have s': "slots w (data_ptr ev') = Some p" by simp
  show "handle_event ev' w = handle_event ev w"
    unfolding handle_event_hup [OF s n h] handle_event_hup [OF s' n h'] d by (rule refl)
qed

theorem cas_iff_hup_rdhup_err_witness:
  "hup_mask \<lparr>events = EPOLLRDHUP OR EPOLLIN, data_ptr = 0x100\<rparr>
   \<and> \<not> hup_mask (readable 0x100)
   \<and> handle_event \<lparr>events = EPOLLRDHUP OR EPOLLIN, data_ptr = 0x100\<rparr> scenario
       = Some (scenario\<lparr>conns := (conns scenario)(0x1000 \<mapsto> \<lparr>fd = 3, state = STATE_REMOTE_CLOSED\<rparr>),
                 trace := [Load (Slot 0x100), Cmpxchg (Conn_state 0x1000) 0 1]\<rparr>)
   \<and> handle_event (readable 0x100) scenario = Some (scenario\<lparr>trace := [Load (Slot 0x100)]\<rparr>)
   \<and> handle_event \<lparr>events = EPOLLERR OR EPOLLHUP, data_ptr = 0x100\<rparr> scenario
       = handle_event \<lparr>events = EPOLLRDHUP OR EPOLLIN, data_ptr = 0x100\<rparr> scenario"
proof -
  let ?ev = "\<lparr>events = EPOLLRDHUP OR EPOLLIN, data_ptr = 0x100\<rparr>"
  let ?ev' = "\<lparr>events = EPOLLERR OR EPOLLHUP, data_ptr = 0x100\<rparr>"
  have s: "slots scenario (data_ptr ?ev) = Some 0x1000"
    "slots scenario (data_ptr (readable 0x100)) = Some 0x1000"
    by (simp_all add: scenario_def readable_def)
  have n: "(0x1000 :: addr) \<noteq> NULL"
    by (simp add: NULL_def)
  have h: "hup_mask ?ev" "hup_mask ?ev'" "\<not> hup_mask (readable 0x100)"
    by (simp_all add: hup_mask_def readable_def EPOLLIN_def EPOLLHUP_def EPOLLRDHUP_def
        EPOLLERR_def)
  have c: "conns scenario 0x1000 = Some \<lparr>fd = 3, state = STATE_OK\<rparr>" "trace scenario = []"
    by (simp_all add: scenario_def)
  have d: "data_ptr ?ev' = data_ptr ?ev" "data_ptr (readable 0x100) = 0x100"
    by (simp_all add: readable_def)
  note T1 = cas_iff_hup_rdhup_err [OF s(1) n]
  note T2 = cas_iff_hup_rdhup_err [OF s(2) n]
  from T1 h(1) have 1: "handle_event ?ev scenario
       = Some (scenario\<lparr>conns := (conns scenario)(0x1000 \<mapsto> \<lparr>fd = 3, state = STATE_REMOTE_CLOSED\<rparr>),
                 trace := [Load (Slot 0x100), Cmpxchg (Conn_state 0x1000) 0 1]\<rparr>)"
    by (simp add: c STATE_OK_def STATE_REMOTE_CLOSED_def)
  from T2 h(3) have 2: "handle_event (readable 0x100) scenario
       = Some (scenario\<lparr>trace := [Load (Slot 0x100)]\<rparr>)"
    by (simp add: c d)
  from T1 h(1,2) d(1) have 3: "handle_event ?ev' scenario = handle_event ?ev scenario"
    by blast
  from h 1 2 3 show ?thesis by blast
qed

section \<open>Repeated deliveries\<close>

lemma for_events_marked:
  "conns w p = Some c \<Longrightarrow> state c \<noteq> STATE_OK \<Longrightarrow>
   list_all (\<lambda>e. slots w (data_ptr e) = Some p) later \<Longrightarrow>
     \<exists>w2. for_events later w = Some w2 \<and> conns w2 = conns w \<and> slots w2 = slots w
       \<and> freeack w2 = freeack w"
proof (induction later arbitrary: w)
  case Nil
  then show ?case by simp
next
  case (Cons e later)
  from Cons.prems have "\<exists>w1. handle_event e w = Some w1 \<and> conns w1 = conns w
      \<and> slots w1 = slots w \<and> freeack w1 = freeack w"
    by (simp add: handle_event_cases)
  then obtain w1 where 1: "handle_event e w = Some w1"
    and 2: "conns w1 = conns w" "slots w1 = slots w" "freeack w1 = freeack w"
    by blast
  from Cons.prems 2 have "\<exists>w2. for_events later w1 = Some w2 \<and> conns w2 = conns w1
      \<and> slots w2 = slots w1 \<and> freeack w2 = freeack w1"
    by (intro Cons.IH) simp_all
  with 1 2 show ?case by auto
qed

text \<open>
  C7. Let the slot of a hang-up or error event \<open>ev\<close> point to a cell in \<^verbatim>\<open>STATE_OK\<close>.
  Handling \<open>ev\<close> puts the cell into \<^verbatim>\<open>STATE_REMOTE_CLOSED\<close> and changes no other cell.
  Any further events \<open>later\<close> that pass the test of the loop and whose slots point to the
  same cell are handled without fault and leave the cells, the slots and the flag as the
  first event left them: delivering \<open>ev # later\<close> (for instance \<open>ev\<close> any number of times)
  gives the memory that delivering \<open>ev\<close> once gives, the trace apart.
\<close>

theorem hangup_delivery_idempotent:
  assumes "slots w (data_ptr ev) = Some p" and "p \<noteq> NULL" and "hup_mask ev"
    and "conns w p = Some c" and "state c = STATE_OK"
    and "list_all (\<lambda>e. hup_mask e \<and> slots w (data_ptr e) = Some p) later"
  shows "\<exists>w1 w2. handle_event ev w = Some w1
           \<and> conns w1 = (conns w)(p \<mapsto> c\<lparr>state := STATE_REMOTE_CLOSED\<rparr>)
           \<and> for_events later w1 = Some w2
           \<and> for_events (ev # later) w = Some w2
           \<and> conns w2 = conns w1 \<and> slots w2 = slots w1 \<and> freeack w2 = freeack w1"
proof -
  let ?c = "c\<lparr>state := STATE_REMOTE_CLOSED\<rparr>"
  let ?w1 = "w\<lparr>conns := (conns w)(p \<mapsto> ?c),
               trace := trace w @ [Load (Slot (data_ptr ev)),
                 Cmpxchg (Conn_state p) (unat STATE_OK) (unat STATE_REMOTE_CLOSED)]\<rparr>"
  have 1: "handle_event ev w = Some ?w1"
    using assms(1-5) by (simp add: handle_event_hup)
  have "conns ?w1 p = Some ?c" by simp
  moreover have "state ?c \<noteq> STATE_OK"
    by (simp add: STATE_OK_def STATE_REMOTE_CLOSED_def)
  moreover have "list_all (\<lambda>e. slots ?w1 (data_ptr e) = Some p) later"
    using assms(6) by (simp add: list_all_iff)
  ultimately obtain w2 where 2: "for_events later ?w1 = Some w2" "conns w2 = conns ?w1"
      "slots w2 = slots ?w1" "freeack w2 = freeack ?w1"
    using for_events_marked by blast
  have 3: "conns ?w1 = (conns w)(p \<mapsto> ?c)" by simp
  have 4: "for_events (ev # later) w = Some w2"
    using 1 2(1) by simp
  from 1 2 3 4 show ?thesis by blast
qed

theorem hangup_delivery_idempotent_witness:
  "\<exists>w1 w2. handle_event (hangup 0x100) scenario = Some w1
     \<and> conns w1 = (conns scenario)(0x1000 \<mapsto> \<lparr>fd = 3, state = STATE_REMOTE_CLOSED\<rparr>)
     \<and> for_events [hangup 0x100, \<lparr>events = EPOLLERR, data_ptr = 0x100\<rparr>, hangup 0x100] w1 = Some w2
     \<and> conns w2 = conns w1 \<and> slots w2 = slots w1 \<and> freeack w2 = freeack w1"
proof -
  let ?later = "[hangup 0x100, \<lparr>events = EPOLLERR, data_ptr = 0x100\<rparr>, hangup 0x100]"
  have a: "slots scenario (data_ptr (hangup 0x100)) = Some 0x1000" "(0x1000 :: addr) \<noteq> NULL"
    "hup_mask (hangup 0x100)" "conns scenario 0x1000 = Some \<lparr>fd = 3, state = STATE_OK\<rparr>"
    "state \<lparr>fd = 3, state = STATE_OK\<rparr> = STATE_OK"
    by (simp_all add: scenario_def hangup_def NULL_def hup_mask_def EPOLLHUP_def
        EPOLLRDHUP_def EPOLLERR_def)
  have m: "list_all (\<lambda>e. hup_mask e \<and> slots scenario (data_ptr e) = Some 0x1000) ?later"
    by (simp add: scenario_def hangup_def hup_mask_def EPOLLHUP_def EPOLLRDHUP_def EPOLLERR_def)
  from hangup_delivery_idempotent [OF a m] show ?thesis
    by auto
qed

section \<open>The acknowledgement store\<close>

lemma evolves_emitted_append:
  "evolves P w w1 \<Longrightarrow> emitted w (w1\<lparr>trace := trace w1 @ t\<rparr>) = emitted w w1 @ t"
  by (auto simp: evolves_def emitted_def)

lemma loop_body_empty: "loop_body (Ready [] ## k) w = Running k (atomic_store 1 w)"
  by (simp add: loop_body_Ready)

text \<open>
  C2. When the wait returns a batch (the first \<^verbatim>\<open>MAX_EVENTS\<close> of the ready events
  \<open>evs\<close>, none included) and the events are handled without fault, leaving the memory
  \<open>w1\<close>, the pass ends with the store of 1 to the flag, made on \<open>w1\<close>: the cells and
  slots at the time of the store are those the whole batch has left. While the events are
  handled the flag keeps the value it had (after any prefix of the batch, and after the
  whole of it) and no access goes to the flag; the store is the last access of the pass.
  An empty batch is acknowledged in the same way. Over any number of passes, every access
  to the flag is a store of 1: the loop never loads it and stores no other value.
\<close>

theorem ack_after_batch:
  "(shd k = Ready evs \<and> for_events (take MAX_EVENTS evs) w = Some w1 \<longrightarrow>
      (\<exists>k'. loop_body k w = Running k' (atomic_store 1 w1))
      \<and> atomic_store 1 w1 = w1\<lparr>freeack := 1, trace := trace w1 @ [Store Freeack 1]\<rparr>
      \<and> conns (atomic_store 1 w1) = conns w1
      \<and> freeack w1 = freeack w
      \<and> (\<forall>j wj. for_events (take j (take MAX_EVENTS evs)) w = Some wj \<longrightarrow>
            freeack wj = freeack w)
      \<and> (\<forall>x\<in>set (emitted w w1). obj_of x \<noteq> Freeack)
      \<and> emitted w (atomic_store 1 w1) = emitted w w1 @ [Store Freeack 1])
   \<and> loop_body (Ready [] ## k0) w0 = Running k0 (atomic_store 1 w0)
   \<and> (outcome_world (cgo_epoll_wait_loop fuel k0 w0) = Some w' \<longrightarrow>
        (\<forall>x\<in>set (emitted w0 w'). obj_of x = Freeack \<longrightarrow> x = Store Freeack 1))"
proof (intro conjI impI allI)
  assume "shd k = Ready evs \<and> for_events (take MAX_EVENTS evs) w = Some w1"
  then show "\<exists>k'. loop_body k w = Running k' (atomic_store 1 w1)"
    by (simp add: loop_body_Ready)
next
  show "atomic_store 1 w1 = w1\<lparr>freeack := 1, trace := trace w1 @ [Store Freeack 1]\<rparr>"
    by (simp add: atomic_store_def)
next
  show "conns (atomic_store 1 w1) = conns w1"
    by (simp add: atomic_store_def)
next
  assume "shd k = Ready evs \<and> for_events (take MAX_EVENTS evs) w = Some w1"
  then have "for_events (take MAX_EVENTS evs) w = Some w1" by simp
  then show "freeack w1 = freeack w"
    by (rule for_events_freeack)
next
  fix j wj
  assume "for_events (take j (take MAX_EVENTS evs)) w = Some wj"
  then show "freeack wj = freeack w"
    by (rule for_events_freeack)
next
  assume "shd k = Ready evs \<and> for_events (take MAX_EVENTS evs) w = Some w1"
  then have "for_events (take MAX_EVENTS evs) w = Some w1" by simp
  then have "evolves event_access w w1"
    by (rule for_events_evolves)
  from evolves_emitted [OF this] show "\<forall>x\<in>set (emitted w w1). obj_of x \<noteq> Freeack"
    by (blast dest: event_access_obj)
next
  assume "shd k = Ready evs \<and> for_events (take MAX_EVENTS evs) w = Some w1"
  then have "for_events (take MAX_EVENTS evs) w = Some w1" by simp
  then have "evolves event_access w w1"
    by (rule for_events_evolves)
  from evolves_emitted_append [OF this, of "[Store Freeack 1]"]
  show "emitted w (atomic_store 1 w1) = emitted w w1 @ [Store Freeack 1]"
    by (simp add: atomic_store_def emitted_def)
next
  show "loop_body (Ready [] ## k0) w0 = Running k0 (atomic_store 1 w0)"
    by (rule loop_body_empty)
next
  assume "outcome_world (cgo_epoll_wait_loop fuel k0 w0) = Some w'"
  then have "evolves loop_access w0 w'" by (rule loop_evolves)
  from evolves_emitted [OF this]
  show "\<forall>x\<in>set (emitted w0 w'). obj_of x = Freeack \<longrightarrow> x = Store Freeack 1"
    by (blast dest: loop_access_ack)
qed

theorem ack_after_batch_witness:
  "\<exists>w1 w'. for_events (take MAX_EVENTS [hangup 0x100, readable 0x110]) scenario = Some w1
     \<and> loop_body (Ready [hangup 0x100, readable 0x110] ## sconst (Ready [])) scenario
         = Running (sconst (Ready [])) (atomic_store 1 w1)
     \<and> freeack w1 = 0 \<and> freeack (atomic_store 1 w1) = 1
     \<and> emitted scenario w1 = [Load (Slot 0x100), Cmpxchg (Conn_state 0x1000) 0 1, Load (Slot 0x110)]
     \<and> emitted scenario (atomic_store 1 w1) = emitted scenario w1 @ [Store Freeack 1]
     \<and> outcome_world (cgo_epoll_wait_loop (Suc (Suc 0))
          (Ready [hangup 0x100, readable 0x110] ## sconst (Ready [])) scenario) = Some w'
     \<and> filter (\<lambda>x. obj_of x = Freeack) (emitted scenario w') = [Store Freeack 1, Store Freeack 1]"
proof -
  let ?evs = "[hangup 0x100, readable 0x110]"
  let ?k = "Ready ?evs ## sconst (Ready [])"
  let ?t = "[Load (Slot 0x100), Cmpxchg (Conn_state 0x1000) 0 1, Load (Slot 0x110)]"
  let ?w1 = "scenario\<lparr>conns := (conns scenario)(0x1000 \<mapsto> \<lparr>fd = 3, state = STATE_REMOTE_CLOSED\<rparr>),
       trace := ?t\<rparr>"
  let ?w' = "?w1\<lparr>freeack := 1, trace := ?t @ [Store Freeack 1, Store Freeack 1]\<rparr>"
  have b: "for_events (take MAX_EVENTS ?evs) scenario = Some ?w1"
    by (simp add: MAX_EVENTS_def handle_event_cases hup_mask_def EPOLLIN_def
        EPOLLHUP_def EPOLLRDHUP_def EPOLLERR_def scenario_def NULL_def
        STATE_OK_def STATE_REMOTE_CLOSED_def hangup_def readable_def)
  have h: "shd ?k = Ready ?evs" by simp
  have e: "emitted scenario ?w1 = ?t" "freeack scenario = 0"
    by (simp_all add: emitted_def scenario_def)
  have l: "loop_body ?k scenario = Running (sconst (Ready [])) (atomic_store 1 ?w1)"
    using b by (simp add: loop_body_Ready MAX_EVENTS_def)
  have "loop_body (sconst (Ready [])) (atomic_store 1 ?w1) = Running (sconst (Ready [])) ?w'"
    by (simp add: loop_body_Ready atomic_store_def)
  with l have r: "outcome_world (cgo_epoll_wait_loop (Suc (Suc 0)) ?k scenario) = Some ?w'"
    by simp
  have e': "emitted scenario ?w' = ?t @ [Store Freeack 1, Store Freeack 1]"
    by (simp add: emitted_def scenario_def)
  note T = ack_after_batch [of ?k ?evs scenario ?w1 "sconst (Ready [])" scenario "Suc (Suc 0)" ?w']
  from T h b have 1: "freeack ?w1 = freeack scenario"
    and 2: "emitted scenario (atomic_store 1 ?w1) = emitted scenario ?w1 @ [Store Freeack 1]"
    and 3: "atomic_store 1 ?w1 = ?w1\<lparr>freeack := 1, trace := trace ?w1 @ [Store Freeack 1]\<rparr>"
    by blast+
  from 3 have 4: "freeack (atomic_store 1 ?w1) = 1" by simp
  have 5: "filter (\<lambda>x. obj_of x = Freeack) (emitted scenario ?w') = [Store Freeack 1, Store Freeack 1]"
    unfolding e' by simp
  from b l 1 2 4 5 r e show ?thesis
    by (intro exI [of _ ?w1] exI [of _ ?w']) (simp only: simp_thms)
qed

section \<open>The size of a batch\<close>

lemma evolves_emitted_trans:
  "evolves P a b \<Longrightarrow> evolves Q b c \<Longrightarrow> emitted a c = emitted a b @ emitted b c"
  by (auto simp: evolves_def emitted_def)

lemma handle_event_slot_loads:
  "handle_event ev w = Some w' \<Longrightarrow> length (filter is_slot_load (emitted w w')) = 1"
  by (auto simp: handle_event_cases emitted_def split: option.splits if_splits)

lemma for_events_slot_loads:
  "for_events evs w = Some w' \<Longrightarrow> length (filter is_slot_load (emitted w w')) = length evs"
proof (induction evs arbitrary: w)
  case Nil
  then show ?case by (simp add: emitted_def)
next
  case (Cons ev evs)
  then obtain w1 where 1: "handle_event ev w = Some w1" and 2: "for_events evs w1 = Some w'"
    by (auto split: option.splits)
  have "emitted w w' = emitted w w1 @ emitted w1 w'"
    using handle_event_evolves [OF 1] for_events_evolves [OF 2]
    by (rule evolves_emitted_trans)
  with handle_event_slot_loads [OF 1] Cons.IH [OF 2] show ?case by simp
qed

lemma for_events_readable:
  "slots w s = Some p \<Longrightarrow>
     for_events (replicate n (readable s)) w
       = Some (w\<lparr>trace := trace w @ replicate n (Load (Slot s))\<rparr>)"
proof (induction n arbitrary: w)
  case 0
  show ?case by simp
next
  case (Suc n)
  have "handle_event (readable s) w = Some (w\<lparr>trace := trace w @ [Load (Slot s)]\<rparr>)"
    using Suc.prems
    by (simp add: handle_event_cases readable_def hup_mask_def EPOLLIN_def EPOLLHUP_def
        EPOLLRDHUP_def EPOLLERR_def)
  moreover have "for_events (replicate n (readable s)) (w\<lparr>trace := trace w @ [Load (Slot s)]\<rparr>)
      = Some (w\<lparr>trace := trace w @ [Load (Slot s)] @ replicate n (Load (Slot s))\<rparr>)"
    using Suc.prems Suc.IH [of "w\<lparr>trace := trace w @ [Load (Slot s)]\<rparr>"] by simp
  ultimately show ?case by simp
qed

text \<open>
  C9. \<^verbatim>\<open>MAX_EVENTS\<close> is 1024 and is the capacity the loop gives to the wait, so a batch
  has at most 1024 events and a pass handles at most 1024 of them (one slot load each).
  When more than 1024 events are ready, the pass handles the first 1024, stores the
  acknowledgement, and the next passes find the remaining events as batches of their own.
\<close>

theorem batch_at_most_max_events:
  "MAX_EVENTS = 1024
   \<and> (epoll_wait k MAX_EVENTS = (Wait_events batch, k') \<longrightarrow> length batch \<le> 1024)
   \<and> (loop_body k w = Running k' w' \<longrightarrow>
        length (filter is_slot_load (emitted w w')) \<le> 1024)
   \<and> (1024 < length evs \<longrightarrow>
        cgo_epoll_wait_loop (Suc fuel) (Ready evs ## k) w =
          (case for_events (take 1024 evs) w of
             None \<Rightarrow> Fault
           | Some w1 \<Rightarrow>
               cgo_epoll_wait_loop fuel (Ready (drop 1024 evs) ## k) (atomic_store 1 w1)))"
proof (intro conjI impI)
  show "MAX_EVENTS = 1024" by (simp add: MAX_EVENTS_def)
next
  assume "epoll_wait k MAX_EVENTS = (Wait_events batch, k')"
  then have "batch = take MAX_EVENTS (case shd k of Ready evs \<Rightarrow> evs | Failed e \<Rightarrow> [])"
    by (auto simp: epoll_wait_def split: kevent.splits)
  then show "length batch \<le> 1024" by (simp add: MAX_EVENTS_def)
next
  assume r: "loop_body k w = Running k' w'"
  show "length (filter is_slot_load (emitted w w')) \<le> 1024"
  proof (cases "shd k")
    case (Failed e)
    with r have "w' = w" by (auto simp: loop_body_Failed split: if_splits)
    then show ?thesis by (simp add: emitted_def)
  next
    case (Ready evs)
    with r obtain w1 where 1: "for_events (take MAX_EVENTS evs) w = Some w1"
      and 2: "w' = atomic_store 1 w1"
      by (auto simp: loop_body_Ready split: option.splits)
    have "emitted w w' = emitted w w1 @ [Store Freeack 1]"
      using evolves_emitted_append [OF for_events_evolves [OF 1], of "[Store Freeack 1]"]
      by (simp add: 2 atomic_store_def emitted_def)
    with for_events_slot_loads [OF 1] show ?thesis by (simp add: MAX_EVENTS_def)
  qed
next
  assume "1024 < length evs"
  then show "cgo_epoll_wait_loop (Suc fuel) (Ready evs ## k) w =
          (case for_events (take 1024 evs) w of
             None \<Rightarrow> Fault
           | Some w1 \<Rightarrow>
               cgo_epoll_wait_loop fuel (Ready (drop 1024 evs) ## k) (atomic_store 1 w1))"
    by (simp add: loop_body_Ready MAX_EVENTS_def split: option.splits)
qed

theorem batch_at_most_max_events_witness:
  "cgo_epoll_wait_loop (Suc (Suc 0))
       (Ready (replicate 1025 (readable 0x110)) ## sconst (Failed 9)) scenario
     = Running (sconst (Failed 9))
         (scenario\<lparr>freeack := 1,
            trace := replicate 1024 (Load (Slot 0x110))
                     @ [Store Freeack 1, Load (Slot 0x110), Store Freeack 1]\<rparr>)
   \<and> fst (epoll_wait (Ready (replicate 1025 (readable 0x110)) ## sconst (Failed 9)) MAX_EVENTS)
       = Wait_events (replicate 1024 (readable 0x110))
   \<and> length (replicate 1024 (readable 0x110)) \<le> 1024"
proof -
  let ?evs = "replicate 1025 (readable 0x110)"
  let ?k = "sconst (Failed 9)"
  let ?w1 = "scenario\<lparr>trace := replicate 1024 (Load (Slot 0x110))\<rparr>"
  let ?w2 = "scenario\<lparr>freeack := 1,
            trace := replicate 1024 (Load (Slot 0x110)) @ [Store Freeack 1, Load (Slot 0x110)]\<rparr>"
  have s: "slots scenario 0x110 = Some 0x3000" "trace scenario = []"
    by (simp_all add: scenario_def)
  have tk: "take 1024 ?evs = replicate 1024 (readable 0x110)"
    "drop 1024 ?evs = [readable 0x110]"
    by simp_all
  have a: "for_events (replicate 1024 (readable 0x110)) scenario = Some ?w1"
    using for_events_readable [OF s(1), of 1024] by (simp add: s(2))
  have "slots (atomic_store 1 ?w1) 0x110 = Some 0x3000"
    by (simp add: atomic_store_def s)
  from for_events_readable [OF this, of 1]
  have b: "for_events [readable 0x110] (atomic_store 1 ?w1) = Some ?w2"
    by (simp add: atomic_store_def)
  have c: "cgo_epoll_wait_loop (Suc 0) (Ready [readable 0x110] ## ?k) (atomic_store 1 ?w1)
      = Running ?k (atomic_store 1 ?w2)"
    using b by (simp add: loop_body_Ready MAX_EVENTS_def)
  have e: "epoll_wait (Ready ?evs ## ?k) MAX_EVENTS
      = (Wait_events (replicate 1024 (readable 0x110)), Ready [readable 0x110] ## ?k)"
    by (simp add: epoll_wait_def MAX_EVENTS_def)
  note T = batch_at_most_max_events [of "Ready ?evs ## ?k" "replicate 1024 (readable 0x110)"
      "Ready [readable 0x110] ## ?k" scenario _ ?evs "Suc 0"]
  from T e have 1: "length (replicate 1024 (readable 0x110)) \<le> 1024" by blast
  have l: "1024 < length ?evs" by simp
  note U = batch_at_most_max_events [of ?k _ _ scenario _ ?evs "Suc 0"]
  from U l have "cgo_epoll_wait_loop (Suc (Suc 0)) (Ready ?evs ## ?k) scenario =
      (case for_events (take 1024 ?evs) scenario of
         None \<Rightarrow> Fault
       | Some w1 \<Rightarrow>
           cgo_epoll_wait_loop (Suc 0) (Ready (drop 1024 ?evs) ## ?k) (atomic_store 1 w1))"
    by blast
  also have "\<dots> = cgo_epoll_wait_loop (Suc 0) (Ready [readable 0x110] ## ?k) (atomic_store 1 ?w1)"
    by (simp only: tk a option.case)
  also note c
  finally have 2: "cgo_epoll_wait_loop (Suc (Suc 0)) (Ready ?evs ## ?k) scenario
      = Running ?k (atomic_store 1 ?w2)" .
  have 3: "atomic_store 1 ?w2 = scenario\<lparr>freeack := 1,
            trace := replicate 1024 (Load (Slot 0x110))
                     @ [Store Freeack 1, Load (Slot 0x110), Store Freeack 1]\<rparr>"
    by (simp add: atomic_store_def)
  from 1 2 3 e show ?thesis by simp
qed

section \<open>When the call returns\<close>

lemma normal_kevent_cong: "valid_event w' = valid_event w \<Longrightarrow> normal_kevent w' x = normal_kevent w x"
  by (cases x) simp_all

lemma loop_body_normal:
  assumes "\<forall>x\<in>sset k. normal_kevent w x"
  shows "\<exists>k' w'. loop_body k w = Running k' w' \<and> (\<forall>x\<in>sset k'. normal_kevent w' x)"
proof (cases "shd k")
  case (Failed e)
  with assms have "e = EINTR"
    by (metis normal_kevent.simps(2) shd_sset)
  with Failed have "loop_body k w = Running (stl k) w"
    by (simp add: loop_body_Failed)
  moreover have "\<forall>x\<in>sset (stl k). normal_kevent w x"
    using assms by (auto dest: stl_sset)
  ultimately show ?thesis by blast
next
  case (Ready evs)
  let ?k' = "if length evs \<le> MAX_EVENTS then stl k else Ready (drop MAX_EVENTS evs) ## stl k"
  from Ready assms have v: "list_all (valid_event w) evs"
    by (metis normal_kevent.simps(1) shd_sset)
  then have "list_all (valid_event w) (take MAX_EVENTS evs)"
    by (auto simp: list_all_iff dest: in_set_takeD)
  then obtain w1 where 1: "for_events (take MAX_EVENTS evs) w = Some w1"
    by (auto simp: for_events_valid)
  have "evolves loop_access w (atomic_store 1 w1)"
    using evolves_mono [OF for_events_evolves [OF 1] event_access_loop] atomic_store_evolves
    by (rule evolves_trans)
  then have eq: "valid_event (atomic_store 1 w1) = valid_event w"
    by (rule evolves_valid_event)
  have l: "loop_body k w = Running ?k' (atomic_store 1 w1)"
    using Ready 1 by (simp add: loop_body_Ready)
  have "list_all (valid_event w) (drop MAX_EVENTS evs)"
    using v by (auto simp: list_all_iff dest: in_set_dropD)
  moreover have "\<forall>x\<in>sset (stl k). normal_kevent w x"
    using assms by (auto dest: stl_sset)
  ultimately have "\<forall>x\<in>sset ?k'. normal_kevent w x"
    by auto
  then have "\<forall>x\<in>sset ?k'. normal_kevent (atomic_store 1 w1) x"
    by (simp add: normal_kevent_cong [OF eq])
  with l show ?thesis by blast
qed

lemma loop_normal:
  "\<forall>x\<in>sset k. normal_kevent w x \<Longrightarrow> \<exists>k' w'. cgo_epoll_wait_loop fuel k w = Running k' w'"
proof (induction fuel arbitrary: k w)
  case 0
  show ?case by simp
next
  case (Suc fuel)
  from loop_body_normal [OF Suc.prems] obtain k1 w1
    where 1: "loop_body k w = Running k1 w1" and 2: "\<forall>x\<in>sset k1. normal_kevent w1 x"
    by blast
  from Suc.IH [OF 2] 1 show ?case by simp
qed

lemma loop_Ready_head:
  "list_all (valid_event w) evs \<Longrightarrow>
     \<exists>n w'. valid_event w' = valid_event w \<and>
       (\<forall>fuel k. cgo_epoll_wait_loop (n + fuel) (Ready evs ## k) w = cgo_epoll_wait_loop fuel k w')"
proof (induction "length evs" arbitrary: evs w rule: less_induct)
  case less
  have "list_all (valid_event w) (take MAX_EVENTS evs)"
    using less.prems by (auto simp: list_all_iff dest: in_set_takeD)
  then obtain w1 where 1: "for_events (take MAX_EVENTS evs) w = Some w1"
    by (auto simp: for_events_valid)
  have "evolves loop_access w (atomic_store 1 w1)"
    using evolves_mono [OF for_events_evolves [OF 1] event_access_loop] atomic_store_evolves
    by (rule evolves_trans)
  then have eq: "valid_event (atomic_store 1 w1) = valid_event w"
    by (rule evolves_valid_event)
  show ?case
  proof (cases "length evs \<le> MAX_EVENTS")
    case True
    with 1 have "\<forall>fuel k. cgo_epoll_wait_loop (1 + fuel) (Ready evs ## k) w
        = cgo_epoll_wait_loop fuel k (atomic_store 1 w1)"
      by (simp add: loop_body_Ready)
    with eq show ?thesis by blast
  next
    case False
    then have "length (drop MAX_EVENTS evs) < length evs"
      by (simp add: MAX_EVENTS_def)
    moreover have "list_all (valid_event (atomic_store 1 w1)) (drop MAX_EVENTS evs)"
      using less.prems by (auto simp: eq list_all_iff dest: in_set_dropD)
    ultimately obtain n w' where 2: "valid_event w' = valid_event (atomic_store 1 w1)"
      and 3: "\<forall>fuel k. cgo_epoll_wait_loop (n + fuel) (Ready (drop MAX_EVENTS evs) ## k)
          (atomic_store 1 w1) = cgo_epoll_wait_loop fuel k w'"
      using less.hyps by blast
    from False 1 3 have "\<forall>fuel k. cgo_epoll_wait_loop (Suc n + fuel) (Ready evs ## k) w
        = cgo_epoll_wait_loop fuel k w'"
      by (simp add: loop_body_Ready)
    with 2 eq show ?thesis by metis
  qed
qed

lemma loop_normal_prefix:
  "list_all (normal_kevent w) pre \<Longrightarrow>
     \<exists>n w'. \<forall>fuel k. cgo_epoll_wait_loop (n + fuel) (pre @- k) w = cgo_epoll_wait_loop fuel k w'"
proof (induction pre arbitrary: w)
  case Nil
  have "\<forall>fuel k. cgo_epoll_wait_loop (0 + fuel) ([] @- k) w = cgo_epoll_wait_loop fuel k w"
    by simp
  then show ?case by blast
next
  case (Cons x pre)
  show ?case
  proof (cases x)
    case (Failed e)
    with Cons.prems have e: "e = EINTR" and p: "list_all (normal_kevent w) pre"
      by simp_all
    from Cons.IH [OF p] obtain n w' where
      1: "\<forall>fuel k. cgo_epoll_wait_loop (n + fuel) (pre @- k) w = cgo_epoll_wait_loop fuel k w'"
      by blast
    have "\<forall>fuel k. cgo_epoll_wait_loop (Suc n + fuel) ((x # pre) @- k) w
        = cgo_epoll_wait_loop fuel k w'"
      using 1 by (simp add: Failed e loop_body_Failed)
    then show ?thesis by blast
  next
    case (Ready evs)
    with Cons.prems have v: "list_all (valid_event w) evs" and p: "list_all (normal_kevent w) pre"
      by simp_all
    from loop_Ready_head [OF v] obtain m w1 where eq: "valid_event w1 = valid_event w"
      and 1: "\<forall>fuel k. cgo_epoll_wait_loop (m + fuel) (Ready evs ## k) w
          = cgo_epoll_wait_loop fuel k w1"
      by blast
    have "list_all (normal_kevent w1) pre"
      using p by (simp add: list_all_iff normal_kevent_cong [OF eq])
    from Cons.IH [OF this] obtain n w' where
      2: "\<forall>fuel k. cgo_epoll_wait_loop (n + fuel) (pre @- k) w1 = cgo_epoll_wait_loop fuel k w'"
      by blast
    have "\<forall>fuel k. cgo_epoll_wait_loop ((m + n) + fuel) ((x # pre) @- k) w
        = cgo_epoll_wait_loop fuel k w'"
      using 1 2 by (simp add: Ready add.assoc)
    then show ?thesis by blast
  qed
qed

text \<open>
  C4. The call returns only on a wait that fails with an \<^verbatim>\<open>errno\<close> other than
  \<^verbatim>\<open>EINTR\<close>, and what it returns is that \<^verbatim>\<open>errno\<close>. On such a failure it returns at
  once: the memory is the one the pass found, no store is made, and the kernel is not
  asked again. When the kernel first behaves normally (the events of \<open>pre\<close>, delivered to
  memory they find valid, and interruptions) and then fails with such an \<open>e\<close>, enough
  passes make the call return \<open>e\<close>. Under normal operation for ever the call is still
  running after any number of passes, and on a kernel whose failures are all
  interruptions no number of passes makes it return.
\<close>

theorem returns_only_on_fatal_error:
  "(cgo_epoll_wait_loop fuel k w = Returned e w' \<longrightarrow> e \<noteq> EINTR \<and> Failed e \<in> sset k)
   \<and> (e \<noteq> EINTR \<longrightarrow> cgo_epoll_wait_loop (Suc fuel) (Failed e ## k) w = Returned e w)
   \<and> (e \<noteq> EINTR \<and> list_all (normal_kevent w) pre \<longrightarrow>
        (\<exists>n w1. \<forall>m. cgo_epoll_wait_loop (n + m) (pre @- Failed e ## k) w = Returned e w1))
   \<and> ((\<forall>x\<in>sset k. normal_kevent w x) \<longrightarrow>
        (\<exists>k' w1. cgo_epoll_wait_loop fuel k w = Running k' w1))
   \<and> ((\<forall>x. Failed x \<in> sset k \<longrightarrow> x = EINTR) \<longrightarrow>
        \<not> has_returned (cgo_epoll_wait_loop fuel k w))"
proof (intro conjI impI)
  assume "cgo_epoll_wait_loop fuel k w = Returned e w'"
  then show "e \<noteq> EINTR" and "Failed e \<in> sset k"
    by (simp_all add: loop_Returned)
next
  assume "e \<noteq> EINTR"
  then show "cgo_epoll_wait_loop (Suc fuel) (Failed e ## k) w = Returned e w"
    by (simp add: loop_body_Failed)
next
  assume a: "e \<noteq> EINTR \<and> list_all (normal_kevent w) pre"
  then have "list_all (normal_kevent w) pre" by simp
  from loop_normal_prefix [OF this] obtain n w1 where
    1: "\<forall>fuel k. cgo_epoll_wait_loop (n + fuel) (pre @- k) w = cgo_epoll_wait_loop fuel k w1"
    by blast
  have "\<forall>m. cgo_epoll_wait_loop (Suc n + m) (pre @- Failed e ## k) w = Returned e w1"
  proof
    fix m
    have "cgo_epoll_wait_loop (n + Suc m) (pre @- Failed e ## k) w
        = cgo_epoll_wait_loop (Suc m) (Failed e ## k) w1"
      using 1 by blast
    with a show "cgo_epoll_wait_loop (Suc n + m) (pre @- Failed e ## k) w = Returned e w1"
      by (simp add: loop_body_Failed)
  qed
  then show "\<exists>n w1. \<forall>m. cgo_epoll_wait_loop (n + m) (pre @- Failed e ## k) w = Returned e w1"
    by blast
next
  assume "\<forall>x\<in>sset k. normal_kevent w x"
  then show "\<exists>k' w1. cgo_epoll_wait_loop fuel k w = Running k' w1"
    by (rule loop_normal)
next
  assume a: "\<forall>x. Failed x \<in> sset k \<longrightarrow> x = EINTR"
  show "\<not> has_returned (cgo_epoll_wait_loop fuel k w)"
  proof (cases "cgo_epoll_wait_loop fuel k w")
    case (Returned r w1)
    from loop_Returned [OF this] a show ?thesis by blast
  qed simp_all
qed

theorem returns_only_on_fatal_error_witness:
  "cgo_epoll_wait_loop (Suc (Suc (Suc 0)))
       (Ready [hangup 0x100] ## Failed EINTR ## Failed 9 ## sconst (Ready [])) scenario
     = Returned 9 (atomic_store 1
         (scenario\<lparr>conns := (conns scenario)(0x1000 \<mapsto> \<lparr>fd = 3, state = STATE_REMOTE_CLOSED\<rparr>),
            trace := [Load (Slot 0x100), Cmpxchg (Conn_state 0x1000) 0 1]\<rparr>))
   \<and> 9 \<noteq> EINTR
   \<and> Failed 9 \<in> sset (Ready [hangup 0x100] ## Failed EINTR ## Failed 9 ## sconst (Ready []))
   \<and> cgo_epoll_wait_loop (Suc 0) (Failed 9 ## sconst (Ready [])) scenario = Returned 9 scenario
   \<and> (\<exists>n w1. \<forall>m. cgo_epoll_wait_loop (n + m)
         ([Ready [hangup 0x100], Failed EINTR] @- Failed 9 ## sconst (Ready [])) scenario
         = Returned 9 w1)
   \<and> (\<exists>k' w1. cgo_epoll_wait_loop 5 (Ready [readable 0x110] ## sconst (Failed EINTR)) scenario
         = Running k' w1)
   \<and> \<not> has_returned
         (cgo_epoll_wait_loop 5 (Ready [readable 0x110] ## sconst (Failed EINTR)) scenario)"
proof -
  let ?pre = "[Ready [hangup 0x100], Failed EINTR]"
  let ?k = "sconst (Ready [])"
  let ?K = "Ready [hangup 0x100] ## Failed EINTR ## Failed 9 ## ?k"
  let ?N = "Ready [readable 0x110] ## sconst (Failed EINTR)"
  let ?w = "atomic_store 1
         (scenario\<lparr>conns := (conns scenario)(0x1000 \<mapsto> \<lparr>fd = 3, state = STATE_REMOTE_CLOSED\<rparr>),
            trace := [Load (Slot 0x100), Cmpxchg (Conn_state 0x1000) 0 1]\<rparr>)"
  have r: "cgo_epoll_wait_loop (Suc (Suc (Suc 0))) ?K scenario = Returned 9 ?w"
    by (simp add: loop_body_Ready loop_body_Failed MAX_EVENTS_def EINTR_def handle_event_cases
        hup_mask_def EPOLLHUP_def EPOLLRDHUP_def EPOLLERR_def scenario_def NULL_def
        STATE_OK_def STATE_REMOTE_CLOSED_def hangup_def)
  have ne: "9 \<noteq> EINTR"
    by (simp add: EINTR_def)
  have p: "list_all (normal_kevent scenario) ?pre"
    by (simp add: valid_event_def hup_mask_def EPOLLHUP_def EPOLLRDHUP_def EPOLLERR_def
        scenario_def NULL_def hangup_def)
  have n: "\<forall>x\<in>sset ?N. normal_kevent scenario x"
    by (simp add: valid_event_def hup_mask_def EPOLLIN_def EPOLLHUP_def EPOLLRDHUP_def
        EPOLLERR_def scenario_def readable_def)
  have f: "\<forall>x. Failed x \<in> sset ?N \<longrightarrow> x = EINTR"
    by simp
  note A = returns_only_on_fatal_error [of "Suc (Suc (Suc 0))" ?K scenario 9 ?w ?pre]
  note B = returns_only_on_fatal_error [of 0 ?k scenario 9 _ ?pre]
  note C = returns_only_on_fatal_error [of 5 ?N scenario]
  from A r have 1: "Failed 9 \<in> sset ?K" by blast
  from B ne have 2: "cgo_epoll_wait_loop (Suc 0) (Failed 9 ## ?k) scenario = Returned 9 scenario"
    by blast
  from B ne p have 3: "\<exists>n w1. \<forall>m. cgo_epoll_wait_loop (n + m) (?pre @- Failed 9 ## ?k) scenario
      = Returned 9 w1"
    by blast
  from C n have 4: "\<exists>k' w1. cgo_epoll_wait_loop 5 ?N scenario = Running k' w1"
    by blast
  from C f have 5: "\<not> has_returned (cgo_epoll_wait_loop 5 ?N scenario)"
    by blast
  from r ne 1 2 3 4 5 show ?thesis by blast
qed

section \<open>The returned value\<close>

text \<open>
  C10. A value the call returns is the \<^verbatim>\<open>errno\<close> of a failed wait and is not
  \<^verbatim>\<open>EINTR\<close>, which the retry consumes. A failed \<^verbatim>\<open>epoll_wait\<close> sets \<^verbatim>\<open>errno\<close>
  to an error number, which is not 0; on a kernel that does so the returned value is not
  0, so the call never returns a success code and the \<^verbatim>\<open>return 0\<close> after the loop
  (line 68) is never the source of a returned value.
\<close>

theorem never_returns_success:
  "cgo_epoll_wait_loop fuel k w = Returned r w' \<Longrightarrow>
     r \<noteq> EINTR \<and> Failed r \<in> sset k
     \<and> ((\<forall>e. Failed e \<in> sset k \<longrightarrow> e \<noteq> 0) \<longrightarrow> r \<noteq> 0)"
  by (blast dest: loop_Returned)

theorem never_returns_success_witness:
  "cgo_epoll_wait_loop (Suc (Suc (Suc 0)))
       (Failed EINTR ## Ready [] ## Failed 9 ## sconst (Ready [])) scenario
     = Returned 9 (atomic_store 1 scenario)
   \<and> (9 :: int) \<noteq> 0 \<and> 9 \<noteq> EINTR
   \<and> Failed 9 \<in> sset (Failed EINTR ## Ready [] ## Failed 9 ## sconst (Ready []))"
proof -
  let ?k = "Failed EINTR ## Ready [] ## Failed 9 ## sconst (Ready [])"
  have r: "cgo_epoll_wait_loop (Suc (Suc (Suc 0))) ?k scenario
      = Returned 9 (atomic_store 1 scenario)"
    by (simp add: loop_body_Failed loop_body_Ready EINTR_def)
  have p: "\<forall>e. Failed e \<in> sset ?k \<longrightarrow> e \<noteq> 0"
    by (simp add: EINTR_def)
  from never_returns_success [OF r] p have "(9 :: int) \<noteq> 0" "9 \<noteq> EINTR" "Failed 9 \<in> sset ?k"
    by blast+
  with r show ?thesis by blast
qed

end
